theory Spec2Isabelle
  imports Main "HOL-Library.Sublist"
begin

section \<open>JavaScript strings and errors\<close>

text \<open>
  The program is a TypeScript module with two classes, \<open>ArgOpt\<close> (one option
  declaration such as \<open>i/input=file\<close>) and \<open>ArgProcessor\<close> (a registry of options and
  the pass over an argument vector). Strings are modelled as \<open>string\<close>; every character
  the declaration grammar accepts is ASCII, and any other character is rejected by the
  same test as an ASCII character that is not a word character.

  A thrown exception is a value: \<open>SyntaxError\<close> and \<open>ReferenceError\<close> carry the message
  the source builds, \<open>TypeError\<close> is the one the engine raises on a property read of
  \<open>undefined\<close> (its message is the engine's, so it carries none).
\<close>

datatype error = SyntaxError string | ReferenceError string | TypeError

definition dq :: string where
  "dq = [CHR 0x22]"

text \<open>\<open>s.search("=")\<close>: the index of the first occurrence, or \<open>-1\<close>.\<close>

definition js_search :: "char \<Rightarrow> string \<Rightarrow> int" where
  "js_search c s = (if c \<in> set s then int (length (takeWhile (\<lambda>x. x \<noteq> c) s)) else - 1)"

text \<open>
  \<open>s.substring(a, b)\<close> and \<open>s.substring(a)\<close>: both indices are clamped to
  \<open>[0, s.length]\<close> and swapped when the first is the larger.
\<close>

definition js_clamp :: "string \<Rightarrow> int \<Rightarrow> nat" where
  "js_clamp s i = (if i < 0 then 0 else min (nat i) (length s))"

definition substring2 :: "string \<Rightarrow> int \<Rightarrow> int \<Rightarrow> string" where
  "substring2 s a b =
     (let x = js_clamp s a; y = js_clamp s b; lo = min x y; hi = max x y
      in take (hi - lo) (drop lo s))"

definition substring1 :: "string \<Rightarrow> int \<Rightarrow> string" where
  "substring1 s a = drop (js_clamp s a) s"

definition startsWith :: "string \<Rightarrow> string \<Rightarrow> bool" where
  "startsWith s p = (take (length p) s = p)"

text \<open>The regular expression \<open>/[\w\d]/\<close> on one character: \<open>[A-Za-z0-9_]\<close>.\<close>

definition is_word_char :: "char \<Rightarrow> bool" where
  "is_word_char c =
     (let n = (of_char c :: nat)
      in (48 \<le> n \<and> n \<le> 57) \<or> (65 \<le> n \<and> n \<le> 90) \<or> n = 95 \<or> (97 \<le> n \<and> n \<le> 122))"

section \<open>ArgOpt\<close>

record ArgOpt =
  short :: string
  long :: string
  placeholder :: string
  description :: string
  capture :: bool
  captured :: string
  proc :: bool

text \<open>
  \<open>ArgOpt.parse\<close>. The loop over the characters of the short/long portion keeps the
  three variables \<open>split\<close>, \<open>short\<close> and \<open>long\<close>; a \<open>/\<close> sets \<open>split\<close> and is skipped
  (\<open>continue\<close>) before the word-character test, every time it occurs.
  The result is the tuple \<open>(short, long, capture, placeholder)\<close>.
\<close>

fun parse_loop :: "string \<Rightarrow> string \<Rightarrow> bool \<Rightarrow> string \<Rightarrow> string \<Rightarrow> error + (bool \<times> string \<times> string)" where
  "parse_loop argOptStr [] split sh lo = Inr (split, sh, lo)"
| "parse_loop argOptStr (c # cs) split sh lo =
     (if c = CHR ''/'' then parse_loop argOptStr cs True sh lo
      else if \<not> is_word_char c then
        Inl (SyntaxError (dq @ [c] @ dq @ '' in '' @ dq @ argOptStr @ dq @ '' is not right.''))
      else if \<not> split then parse_loop argOptStr cs split (sh @ [c]) lo
      else parse_loop argOptStr cs split sh (lo @ [c]))"

definition parse :: "string \<Rightarrow> error + (string \<times> string \<times> bool \<times> string)" where
  "parse argOptStr =
     (let found = (js_search CHR ''='' argOptStr \<noteq> - 1);
          cap = found;
          ph = (if found then substring1 argOptStr (js_search CHR ''='' argOptStr + 1) else []);
          str = (if found then substring2 argOptStr 0 (js_search CHR ''='' argOptStr) else argOptStr)
      in case parse_loop argOptStr str False [] [] of
           Inl e \<Rightarrow> Inl e
         | Inr (split, sh, lo) \<Rightarrow>
             if \<not> split then
               Inl (SyntaxError (dq @ argOptStr @ dq @ '' did not have separator ('' @ dq @ ''/'' @ dq @ '').''))
             else if length lo = 0 then
               Inl (SyntaxError (dq @ argOptStr @ dq @ '' cannot have empty long.''))
             else Inr (sh, lo, cap, ph))"

text \<open>The constructor \<open>new ArgOpt(argOptStr, description)\<close>.\<close>

definition ArgOpt_constructor :: "string \<Rightarrow> string \<Rightarrow> error + ArgOpt" where
  "ArgOpt_constructor argOptStr desc =
     (case parse argOptStr of
        Inl e \<Rightarrow> Inl e
      | Inr (sh, lo, cap, ph) \<Rightarrow>
          Inr \<lparr>short = sh, long = lo, placeholder = ph, description = desc,
               capture = cap, captured = [], proc = False\<rparr>)"

definition toString :: "ArgOpt \<Rightarrow> string" where
  "toString a = (let cap = (if capture a then ''='' else [])
                 in short a @ ''/'' @ long a @ cap @ placeholder a)"

section \<open>The registry\<close>

text \<open>
  \<open>ArgProcessor.opts\<close> is a plain object used as a dictionary from long name to
  \<open>ArgOpt\<close>. The code iterates over it (\<open>Object.entries\<close>, \<open>Object.values\<close>,
  \<open>Object.keys\<close>) and stops at the first match, so the model is the list of its own
  properties in enumeration order, each key once. JavaScript enumerates the keys that
  are array indices (canonical decimal numerals below \<open>2^32 - 1\<close>) first, in numeric
  order, and then the other keys in the order they were created; an assignment to an
  existing key keeps its place.

  The key \<open>__proto__\<close> is special in JavaScript: the assignment
  \<open>this.opts["__proto__"] = opt\<close> creates no own property, it makes \<open>opt\<close> the
  prototype of the object. The prototype is never enumerated, so it takes no part in
  the matching; it only shows in the reads \<open>this.opts[k]\<close> of a key that is not an
  own property. The model keeps it beside the list: \<open>None\<close> is the default prototype
  \<open>Object.prototype\<close>, \<open>Some opt\<close> a descriptor stored under \<open>__proto__\<close>.
\<close>

type_synonym registry = "(string \<times> ArgOpt) list"

definition is_digit :: "char \<Rightarrow> bool" where
  "is_digit c = (let n = (of_char c :: nat) in 48 \<le> n \<and> n \<le> 57)"

definition index_value :: "string \<Rightarrow> nat" where
  "index_value s = foldl (\<lambda>n c. 10 * n + (of_char c - 48)) 0 s"

definition is_array_index :: "string \<Rightarrow> bool" where
  "is_array_index s =
     (s \<noteq> [] \<and> list_all is_digit s \<and> (s = ''0'' \<or> hd s \<noteq> CHR ''0'')
      \<and> index_value s < 4294967295)"

fun insert_index :: "string \<Rightarrow> ArgOpt \<Rightarrow> registry \<Rightarrow> registry" where
  "insert_index k v [] = [(k, v)]"
| "insert_index k v ((k', v') # es) =
     (if is_array_index k' \<and> index_value k' < index_value k
      then (k', v') # insert_index k v es
      else (k, v) # (k', v') # es)"

text \<open>
  The assignment \<open>this.opts[k] = v\<close> for a key other than \<open>__proto__\<close>,
  \<open>delete this.opts[k]\<close>, and an update of the object stored under \<open>k\<close>.
\<close>

definition opts_set :: "string \<Rightarrow> ArgOpt \<Rightarrow> registry \<Rightarrow> registry" where
  "opts_set k v r =
     (if k \<in> fst ` set r then map (\<lambda>(k', v'). if k' = k then (k', v) else (k', v')) r
      else if is_array_index k then insert_index k v r
      else r @ [(k, v)])"

definition opts_delete :: "string \<Rightarrow> registry \<Rightarrow> registry" where
  "opts_delete k r = filter (\<lambda>(k', v'). k' \<noteq> k) r"

text \<open>The assignment \<open>this.opts[k] = v\<close> on the list of own properties and the prototype.\<close>

definition opts_assign :: "string \<Rightarrow> ArgOpt \<Rightarrow> registry \<times> ArgOpt option \<Rightarrow> registry \<times> ArgOpt option" where
  "opts_assign k v obj =
     (if k = ''__proto__'' then (fst obj, Some v)
      else (opts_set k v (fst obj), snd obj))"

definition opts_modify :: "string \<Rightarrow> (ArgOpt \<Rightarrow> ArgOpt) \<Rightarrow> registry \<Rightarrow> registry" where
  "opts_modify k f r = map (\<lambda>(k', v'). if k' = k then (k', f v') else (k', v')) r"

text \<open>
  The read \<open>this.opts[k]\<close>: an own property; or, for the key \<open>__proto__\<close>, the
  prototype itself; or a property inherited along the prototype chain (a string, a
  boolean, a function or an object that is not an \<open>ArgOpt\<close>, on which the reads
  \<open>.proc\<close> and \<open>.captured\<close> give \<open>undefined\<close>); or \<open>undefined\<close>. The chain of a
  descriptor stored as prototype is the descriptor with its seven fields, then
  \<open>ArgOpt.prototype\<close> with the methods of the class, then \<open>Object.prototype\<close>.
\<close>

datatype lookup = Own ArgOpt | Inherited | Undefined

definition Object_prototype_keys :: "string list" where
  "Object_prototype_keys =
     [''constructor'', ''__defineGetter__'', ''__defineSetter__'', ''hasOwnProperty'',
      ''__lookupGetter__'', ''__lookupSetter__'', ''isPrototypeOf'',
      ''propertyIsEnumerable'', ''toString'', ''valueOf'', ''__proto__'',
      ''toLocaleString'']"

definition ArgOpt_field_keys :: "string list" where
  "ArgOpt_field_keys =
     [''short'', ''long'', ''placeholder'', ''description'', ''capture'', ''captured'', ''proc'']"

definition ArgOpt_prototype_keys :: "string list" where
  "ArgOpt_prototype_keys = [''constructor'', ''toString'', ''helpString'', ''valueOf'']"

definition opts_lookup :: "registry \<Rightarrow> ArgOpt option \<Rightarrow> string \<Rightarrow> lookup" where
  "opts_lookup r p k =
     (case map_of r k of
        Some v \<Rightarrow> Own v
      | None \<Rightarrow>
          (case p of
             None \<Rightarrow> if k \<in> set Object_prototype_keys then Inherited else Undefined
           | Some proto \<Rightarrow>
               if k = ''__proto__'' then Own proto
               else if k \<in> set ArgOpt_field_keys \<or> k \<in> set ArgOpt_prototype_keys
                       \<or> k \<in> set Object_prototype_keys
               then Inherited else Undefined))"

section \<open>ArgProcessor\<close>

record ArgProcessor =
  strict :: bool
  opts :: registry
  opts_proto :: "ArgOpt option"

text \<open>A number in a template string, \<open>`${iter}`\<close>.\<close>

definition digit_char :: "nat \<Rightarrow> char" where
  "digit_char d = ''0123456789'' ! d"

fun show_nat :: "nat \<Rightarrow> string" where
  "show_nat n =
     (if n < 10 then [digit_char n]
      else show_nat (n div 10) @ [digit_char (n mod 10)])"

declare show_nat.simps [simp del]

text \<open>
  The constructor compares every descriptor with every other one, the inner loop
  skipping its own position; the first pair with the same \<open>short\<close> or the same
  \<open>long\<close> throws.
\<close>

definition identical_msg :: "ArgOpt \<Rightarrow> nat \<Rightarrow> ArgOpt \<Rightarrow> nat \<Rightarrow> string \<Rightarrow> string" where
  "identical_msg opt iter mopt miter what =
     dq @ toString opt @ dq @ '' in '' @ dq @ ''opts['' @ show_nat iter @ '']'' @ dq
     @ '' and '' @ dq @ toString mopt @ dq @ '' in '' @ dq @ ''opts['' @ show_nat miter @ '']'' @ dq
     @ '' have an identical '' @ what @ ''.''"

fun constructor_match :: "nat \<Rightarrow> ArgOpt \<Rightarrow> nat \<Rightarrow> ArgOpt list \<Rightarrow> error option" where
  "constructor_match iter opt miter [] = None"
| "constructor_match iter opt miter (mopt # ms) =
     (if iter = miter then constructor_match iter opt (Suc miter) ms
      else if short opt = short mopt then
        Some (ReferenceError (identical_msg opt iter mopt miter ''short''))
      else if long opt = long mopt then
        Some (ReferenceError (identical_msg opt iter mopt miter ''long''))
      else constructor_match iter opt (Suc miter) ms)"

fun constructor_loop :: "ArgOpt list \<Rightarrow> nat \<Rightarrow> ArgOpt list \<Rightarrow> registry \<times> ArgOpt option
    \<Rightarrow> error + registry \<times> ArgOpt option" where
  "constructor_loop all iter [] obj = Inr obj"
| "constructor_loop all iter (opt # rest) obj =
     (case constructor_match iter opt 0 all of
        Some e \<Rightarrow> Inl e
      | None \<Rightarrow> constructor_loop all (Suc iter) rest (opts_assign (long opt) opt obj))"

definition ArgProcessor_constructor :: "ArgOpt list \<Rightarrow> error + ArgProcessor" where
  "ArgProcessor_constructor os =
     (case constructor_loop os 0 os ([], None) of
        Inl e \<Rightarrow> Inl e
      | Inr (r, p) \<Rightarrow> Inr \<lparr>strict = True, opts = r, opts_proto = p\<rparr>)"

definition dropOpt :: "ArgProcessor \<Rightarrow> string \<Rightarrow> ArgProcessor" where
  "dropOpt ap opt =
     (if opt = ''*'' then ap\<lparr>opts := []\<rparr>
      else ap\<lparr>opts := opts_delete opt (opts ap)\<rparr>)"

fun pushOpt_match :: "ArgOpt \<Rightarrow> ArgOpt list \<Rightarrow> error option" where
  "pushOpt_match opt [] = None"
| "pushOpt_match opt (mopt # ms) =
     (if short opt = short mopt \<and> \<not> (long opt = long mopt) then
        Some (ReferenceError (toString opt @ '' and '' @ toString mopt @ '' have the same short.''))
      else pushOpt_match opt ms)"

definition pushOpt :: "ArgProcessor \<Rightarrow> ArgOpt \<Rightarrow> error + ArgProcessor" where
  "pushOpt ap opt =
     (case pushOpt_match opt (map snd (opts ap)) of
        Some e \<Rightarrow> Inl e
      | None \<Rightarrow>
          (let ap' = dropOpt ap (long opt);
               (r, p) = opts_assign (long opt) opt (opts ap', opts_proto ap')
           in Inr (ap'\<lparr>opts := r, opts_proto := p\<rparr>)))"

definition pushOptStr :: "ArgProcessor \<Rightarrow> string \<Rightarrow> string \<Rightarrow> error + ArgProcessor" where
  "pushOptStr ap optStr desc =
     (case ArgOpt_constructor optStr desc of
        Inl e \<Rightarrow> Inl e
      | Inr opt \<Rightarrow> pushOpt ap opt)"

definition resetOpt :: "ArgProcessor \<Rightarrow> ArgProcessor" where
  "resetOpt ap = ap\<lparr>opts := map (\<lambda>(key, opt). (key, opt\<lparr>captured := [], proc := False\<rparr>)) (opts ap)\<rparr>"

text \<open>
  The query methods read \<open>this.opts[long].proc\<close> and \<open>this.opts[long].captured\<close>.
  The result \<open>None\<close> is JavaScript's \<open>undefined\<close>; reading a property of
  \<open>undefined\<close> throws a \<open>TypeError\<close>.
\<close>

definition proced :: "ArgProcessor \<Rightarrow> string \<Rightarrow> error + bool option" where
  "proced ap l =
     (case opts_lookup (opts ap) (opts_proto ap) l of
        Own opt \<Rightarrow> Inr (Some (proc opt))
      | Inherited \<Rightarrow> Inr None
      | Undefined \<Rightarrow> Inl TypeError)"

definition value_of :: "ArgProcessor \<Rightarrow> string \<Rightarrow> error + string option" where
  "value_of ap l =
     (case opts_lookup (opts ap) (opts_proto ap) l of
        Own opt \<Rightarrow> Inr (Some (captured opt))
      | Inherited \<Rightarrow> Inr None
      | Undefined \<Rightarrow> Inl TypeError)"

section \<open>The processing pass\<close>

text \<open>
  The variables of the loop of \<open>process\<close>: the registry (whose descriptors the loop
  mutates), the array \<open>filtered\<close>, and \<open>captureNext\<close> with \<open>lastCapKey\<close>.
  An exception leaves the registry as it was when it was thrown, so a failure carries
  the registry along.
\<close>

record pstate =
  reg :: registry
  filtered :: "string list"
  captureNext :: bool
  lastCapKey :: string

text \<open>The loop over \<open>Object.entries(this.opts)\<close> up to its \<open>break\<close>: the first entry that matches.\<close>

fun find_match :: "bool \<Rightarrow> string \<Rightarrow> registry \<Rightarrow> (string \<times> ArgOpt) option" where
  "find_match lng key [] = None"
| "find_match lng key ((keyOpt, argOpt) # es) =
     (if (lng \<and> key = long argOpt) \<or> (\<not> lng \<and> key = short argOpt)
      then Some (keyOpt, argOpt)
      else find_match lng key es)"

definition must_supply :: "string \<Rightarrow> error" where
  "must_supply arg = ReferenceError (''must supply value for '' @ dq @ arg @ dq @ ''.'')"

definition unrecognized :: "string \<Rightarrow> error" where
  "unrecognized arg = ReferenceError (''Unrecognized option: '' @ dq @ arg @ dq)"

text \<open>
  The body of the matching branch. \<open>has_next\<close> is the test
  \<open>args[iter + 1] !== undefined\<close>: the elements of \<open>args\<close> are strings, so it says that
  \<open>arg\<close> is not the last token.
\<close>

definition on_match :: "string \<Rightarrow> string \<Rightarrow> bool \<Rightarrow> string \<Rightarrow> ArgOpt \<Rightarrow> pstate \<Rightarrow> (error \<times> registry) + pstate" where
  "on_match arg optKey has_next keyOpt argOpt st =
     (let st1 = st\<lparr>reg := opts_modify keyOpt (\<lambda>a. a\<lparr>proc := True\<rparr>) (reg st)\<rparr>
      in if capture argOpt then
           (let valIdx = js_search CHR ''='' optKey
            in if valIdx \<noteq> - 1 then
                 (let val = substring1 optKey (valIdx + 1)
                  in if val = [] then Inl (must_supply arg, reg st1)
                     else Inr (st1\<lparr>reg := opts_modify keyOpt (\<lambda>a. a\<lparr>captured := val\<rparr>) (reg st1)\<rparr>))
               else if \<not> has_next then Inl (must_supply arg, reg st1)
               else Inr (st1\<lparr>captureNext := True, lastCapKey := keyOpt\<rparr>))
         else Inr st1)"

text \<open>
  The variables \<open>optKey\<close> and \<open>long\<close> after the two \<open>startsWith\<close> tests, and
  \<open>optKey.substring(0, optKey.search("=")) || optKey\<close>.
\<close>

definition optKey_of :: "string \<Rightarrow> string \<times> bool" where
  "optKey_of arg =
     (if startsWith arg ''--'' then (substring1 arg 2, True)
      else if startsWith arg ''-'' then (substring1 arg 1, False)
      else ([], False))"

definition key_of :: "string \<Rightarrow> string" where
  "key_of optKey =
     (let pre = substring2 optKey 0 (js_search CHR ''='' optKey)
      in if pre \<noteq> [] then pre else optKey)"

text \<open>
  One iteration of the loop, for the token \<open>arg\<close> followed by the tokens \<open>rest\<close>.
  When \<open>captureNext\<close> is set, \<open>lastCapKey\<close> is the key of the entry that set it.
\<close>

definition process_arg :: "bool \<Rightarrow> string \<Rightarrow> string list \<Rightarrow> pstate \<Rightarrow> (error \<times> registry) + pstate" where
  "process_arg strct arg rest st =
     (if captureNext st then
        Inr (st\<lparr>captureNext := False,
                reg := opts_modify (lastCapKey st) (\<lambda>a. a\<lparr>captured := arg\<rparr>) (reg st),
                lastCapKey := []\<rparr>)
      else
        (let (optKey, lng) = optKey_of arg;
             scanned =
               (if optKey \<noteq> [] then
                  (let key = key_of optKey
                   in case find_match lng key (reg st) of
                        Some (keyOpt, argOpt) \<Rightarrow>
                          (case on_match arg optKey (rest \<noteq> []) keyOpt argOpt st of
                             Inl e \<Rightarrow> Inl e
                           | Inr st' \<Rightarrow> Inr (True, st'))
                      | None \<Rightarrow> Inr (False, st))
                else Inr (False, st\<lparr>filtered := filtered st @ [arg]\<rparr>))
         in case scanned of
              Inl e \<Rightarrow> Inl e
            | Inr (recog, st') \<Rightarrow>
                if strct \<and> optKey \<noteq> [] \<and> \<not> recog then Inl (unrecognized arg, reg st')
                else if \<not> strct \<and> optKey \<noteq> [] \<and> \<not> recog then
                  Inr (st'\<lparr>filtered := filtered st' @ [arg]\<rparr>)
                else Inr st'))"

fun process_loop :: "bool \<Rightarrow> string list \<Rightarrow> pstate \<Rightarrow> (error \<times> registry) + pstate" where
  "process_loop strct [] st = Inr st"
| "process_loop strct (arg # rest) st =
     (case process_arg strct arg rest st of
        Inl e \<Rightarrow> Inl e
      | Inr st' \<Rightarrow> process_loop strct rest st')"

text \<open>
  \<open>process(args)\<close>: the outcome (the exception thrown, or the array returned) and the
  processor with its descriptors as the pass left them.
\<close>

definition process :: "ArgProcessor \<Rightarrow> string list \<Rightarrow> (error + string list) \<times> ArgProcessor" where
  "process ap args =
     (let ap0 = resetOpt ap;
          st0 = \<lparr>reg = opts ap0, filtered = [], captureNext = False, lastCapKey = []\<rparr>
      in case process_loop (strict ap0) args st0 of
           Inl (e, r) \<Rightarrow> (Inl e, ap0\<lparr>opts := r\<rparr>)
         | Inr st \<Rightarrow> (Inr (filtered st), ap0\<lparr>opts := reg st\<rparr>))"

section \<open>Example descriptors and registries\<close>

text \<open>
  The descriptors of \<open>h/help\<close>, \<open>i/input=\<close>, \<open>/help\<close> and \<open>/input\<close>, and the
  processors built from them.
\<close>

definition help_opt :: ArgOpt where
  "help_opt = \<lparr>short = ''h'', long = ''help'', placeholder = [], description = [],
               capture = False, captured = [], proc = False\<rparr>"

definition input_opt :: ArgOpt where
  "input_opt = \<lparr>short = ''i'', long = ''input'', placeholder = [], description = [],
                capture = True, captured = [], proc = False\<rparr>"

definition long_help_opt :: ArgOpt where
  "long_help_opt = \<lparr>short = [], long = ''help'', placeholder = [], description = [],
                    capture = False, captured = [], proc = False\<rparr>"

definition long_input_opt :: ArgOpt where
  "long_input_opt = \<lparr>short = [], long = ''input'', placeholder = [], description = [],
                     capture = False, captured = [], proc = False\<rparr>"

definition demo :: ArgProcessor where
  "demo = \<lparr>strict = True, opts = [(''help'', help_opt), (''input'', input_opt)],
             opts_proto = None\<rparr>"

definition empty_processor :: ArgProcessor where
  "empty_processor = \<lparr>strict = True, opts = [], opts_proto = None\<rparr>"

section \<open>Notions used to state the properties\<close>

text \<open>
  The short/long portion of a declaration (the text before the first \<open>=\<close>), the text
  of a portion after its first \<open>/\<close> with every further \<open>/\<close> removed, and the error
  the parser throws at the first character of a portion that is neither a \<open>/\<close> nor a
  word character.
\<close>

definition portion :: "string \<Rightarrow> string" where
  "portion s = takeWhile (\<lambda>c. c \<noteq> CHR ''='') s"

definition sep_stripped :: "string \<Rightarrow> string" where
  "sep_stripped p = filter (\<lambda>c. c \<noteq> CHR ''/'') (dropWhile (\<lambda>c. c \<noteq> CHR ''/'') p)"

definition bad_char_error :: "string \<Rightarrow> string \<Rightarrow> error" where
  "bad_char_error argOptStr cs =
     (let c = hd (filter (\<lambda>c. c \<noteq> CHR ''/'' \<and> \<not> is_word_char c) cs)
      in SyntaxError (dq @ [c] @ dq @ '' in '' @ dq @ argOptStr @ dq @ '' is not right.''))"

text \<open>
  The scan as the spec describes it (section 4.3, steps 2a to 2g, and the glossary),
  for comparison with the code. A token that starts with \<open>--\<close> is long-form, one
  that starts with \<open>-\<close> is short-form, and the text after the dashes is its key
  (step 2b).
\<close>

definition spec_form :: "string \<Rightarrow> (bool \<times> string) option" where
  "spec_form t =
     (if take 2 t = ''--'' then Some (True, drop 2 t)
      else if take 1 t = ''-'' then Some (False, drop 1 t)
      else None)"

text \<open>
  The lookup key is the part of the key before its first \<open>=\<close> (step 2c); the token
  is matched to the first descriptor whose \<open>long\<close> (long-form) or \<open>short\<close>
  (short-form) equals the lookup key (step 2d). An empty lookup key matches no
  descriptor: by section 3 a long is never empty and an empty short means that the
  option has no short form, and for the one case that the algorithm leaves open, an
  empty key against an empty short, section 9 recommends this reading.
\<close>

definition spec_match :: "registry \<Rightarrow> string \<Rightarrow> ArgOpt option" where
  "spec_match r t =
     (case spec_form t of
        None \<Rightarrow> None
      | Some (lng, key) \<Rightarrow>
          (let k = takeWhile (\<lambda>c. c \<noteq> CHR ''='') key
           in if k = [] then None
              else find (\<lambda>a. if lng then long a = k else short a = k) (map snd r)))"

text \<open>Whether the key of an option-form token has an \<open>=\<close>, that is, an inline value (step 2c).\<close>

definition spec_inline :: "string \<Rightarrow> bool" where
  "spec_inline t = (case spec_form t of None \<Rightarrow> False | Some (lng, key) \<Rightarrow> CHR ''='' \<in> set key)"

text \<open>
  The positional tokens (glossary: any token not matched to a registered option and
  not consumed as a captured value). The flag is the one bit of state of the scan: the
  previous token matched a capturing descriptor and had no inline value, so this token
  is consumed as its value (steps 2a and 2g).
\<close>

fun spec_scan :: "registry \<Rightarrow> bool \<Rightarrow> string list \<Rightarrow> string list" where
  "spec_scan r awaiting [] = []"
| "spec_scan r True (t # ts) = spec_scan r False ts"
| "spec_scan r False (t # ts) =
     (case spec_match r t of
        None \<Rightarrow> t # spec_scan r False ts
      | Some a \<Rightarrow> spec_scan r (capture a \<and> \<not> spec_inline t) ts)"

definition spec_positional :: "registry \<Rightarrow> string list \<Rightarrow> string list" where
  "spec_positional r ts = spec_scan r False ts"

text \<open>
  No short and no long of the registry contains an \<open>=\<close>. The declaration grammar
  admits only word characters there, so every descriptor built from a declaration
  string is of this kind.
\<close>

definition plain_keys :: "registry \<Rightarrow> bool" where
  "plain_keys r = (\<forall>(k, a)\<in>set r. CHR ''='' \<notin> set (short a) \<and> CHR ''='' \<notin> set (long a))"

text \<open>The registry with the transient fields of every descriptor cleared.\<close>

definition reset_reg :: "registry \<Rightarrow> registry" where
  "reset_reg r = map (\<lambda>(key, opt). (key, opt\<lparr>captured := [], proc := False\<rparr>)) r"

section \<open>Evaluation on concrete inputs\<close>

lemmas js_defs =
  js_search_def js_clamp_def substring1_def substring2_def startsWith_def dq_def
  is_word_char_def

lemmas registry_defs =
  opts_set_def opts_assign_def opts_delete_def opts_modify_def opts_lookup_def
  is_array_index_def is_digit_def index_value_def Object_prototype_keys_def
  ArgOpt_field_keys_def ArgOpt_prototype_keys_def

lemmas pass_defs =
  process_def resetOpt_def process_arg_def on_match_def optKey_of_def key_of_def
  must_supply_def unrecognized_def

lemmas example_defs =
  help_opt_def input_opt_def long_help_opt_def long_input_opt_def demo_def
  empty_processor_def

lemmas message_defs =
  identical_msg_def toString_def show_nat.simps digit_char_def

lemmas spec_defs =
  spec_positional_def spec_match_def spec_form_def spec_inline_def plain_keys_def

lemma examples_constructed:
  "ArgOpt_constructor ''h/help'' [] = Inr help_opt"
  "ArgOpt_constructor ''i/input='' [] = Inr input_opt"
  "ArgOpt_constructor ''/help'' [] = Inr long_help_opt"
  "ArgOpt_constructor ''/input'' [] = Inr long_input_opt"
  "ArgProcessor_constructor [help_opt, input_opt] = Inr demo"
  "ArgProcessor_constructor [] = Inr empty_processor"
  "pushOptStr empty_processor ''h/help'' [] = Inr \<lparr>strict = True, opts = [(''help'', help_opt)], opts_proto = None\<rparr>"
  "pushOptStr \<lparr>strict = True, opts = [(''help'', help_opt)], opts_proto = None\<rparr> ''i/input='' [] = Inr demo"
  by (simp_all add: ArgOpt_constructor_def parse_def ArgProcessor_constructor_def
      pushOptStr_def pushOpt_def dropOpt_def js_defs registry_defs example_defs)

section \<open>The declaration parser\<close>

lemma parse_loop_eq:
  "parse_loop a cs split sh lo =
     (if \<forall>c\<in>set cs. c = CHR ''/'' \<or> is_word_char c
      then Inr (split \<or> CHR ''/'' \<in> set cs,
                if split then sh else sh @ takeWhile (\<lambda>c. c \<noteq> CHR ''/'') cs,
                if split then lo @ filter (\<lambda>c. c \<noteq> CHR ''/'') cs
                else lo @ filter (\<lambda>c. c \<noteq> CHR ''/'') (dropWhile (\<lambda>c. c \<noteq> CHR ''/'') cs))
      else Inl (bad_char_error a cs))"
proof (induction cs arbitrary: split sh lo)
  case Nil
  then show ?case by simp
next
  case (Cons c cs)
  show ?case
  proof (cases "c = CHR ''/''")
    case True
    then show ?thesis by (simp add: Cons bad_char_error_def)
  next
    case False
    then show ?thesis by (cases split) (auto simp add: Cons bad_char_error_def)
  qed
qed

lemma word_char_not_sep: "is_word_char c \<Longrightarrow> c \<noteq> CHR ''/'' \<and> c \<noteq> CHR ''=''"
  by (auto simp: is_word_char_def)

lemma takeWhile_notin: "c \<notin> set s \<Longrightarrow> takeWhile (\<lambda>x. x \<noteq> c) s = s"
  by (induction s) auto

lemma portion_eq:
  "(if js_search CHR ''='' s \<noteq> - 1 then substring2 s 0 (js_search CHR ''='' s) else s)
     = takeWhile (\<lambda>c. c \<noteq> CHR ''='') s"
proof (cases "CHR ''='' \<in> set s")
  case True
  have "length (takeWhile (\<lambda>c. c \<noteq> CHR ''='') s) \<le> length s"
    by (rule length_takeWhile_le)
  then show ?thesis using True
    by (simp add: js_search_def substring2_def js_clamp_def takeWhile_eq_take[symmetric])
next
  case False
  then show ?thesis by (simp add: js_search_def takeWhile_notin del: takeWhile_eq_all_conv)
qed

lemma placeholder_eq:
  "(if js_search CHR ''='' s \<noteq> - 1 then substring1 s (js_search CHR ''='' s + 1) else [])
     = drop (Suc (length (takeWhile (\<lambda>c. c \<noteq> CHR ''='') s))) s"
proof (cases "CHR ''='' \<in> set s")
  case True
  have "length (takeWhile (\<lambda>c. c \<noteq> CHR ''='') s) < length s"
    using True by (induction s) auto
  then show ?thesis using True
    by (simp add: js_search_def substring1_def js_clamp_def nat_add_distrib)
next
  case False
  then show ?thesis by (simp add: js_search_def takeWhile_notin del: takeWhile_eq_all_conv)
qed

lemma found_eq: "(js_search CHR ''='' s \<noteq> - 1) = (CHR ''='' \<in> set s)"
  by (simp add: js_search_def)

lemma parse_eq:
  "parse s =
     (if \<forall>c\<in>set (portion s). c = CHR ''/'' \<or> is_word_char c then
        if CHR ''/'' \<notin> set (portion s) then
          Inl (SyntaxError (dq @ s @ dq @ '' did not have separator ('' @ dq @ ''/'' @ dq @ '').''))
        else if sep_stripped (portion s) = [] then
          Inl (SyntaxError (dq @ s @ dq @ '' cannot have empty long.''))
        else Inr (takeWhile (\<lambda>c. c \<noteq> CHR ''/'') (portion s), sep_stripped (portion s),
                  CHR ''='' \<in> set s, drop (Suc (length (portion s))) s)
      else Inl (bad_char_error s (portion s)))"
proof -
  have *: "parse s =
     (case parse_loop s (portion s) False [] [] of
        Inl e \<Rightarrow> Inl e
      | Inr (split, sh, lo) \<Rightarrow>
          if \<not> split then
            Inl (SyntaxError (dq @ s @ dq @ '' did not have separator ('' @ dq @ ''/'' @ dq @ '').''))
          else if length lo = 0 then
            Inl (SyntaxError (dq @ s @ dq @ '' cannot have empty long.''))
          else Inr (sh, lo, CHR ''='' \<in> set s, drop (Suc (length (portion s))) s))"
    unfolding parse_def Let_def portion_def
    unfolding portion_eq placeholder_eq
    unfolding found_eq ..
  show ?thesis
    unfolding * parse_loop_eq sep_stripped_def by auto
qed

lemma portion_of_canonical:
  assumes "CHR ''='' \<notin> set x"
  shows "portion (x @ CHR ''='' # ph) = x" and "portion x = x"
  using assms by (auto simp: portion_def takeWhile_append)

text \<open>
  C2, as the code has it. A declaration whose short/long portion contains more than
  one \<open>/\<close> is not rejected for that: every \<open>/\<close> is skipped as a separator. Such a
  declaration parses exactly when every other character of the portion is a word
  character and at least one of them stands after the first \<open>/\<close>; then \<open>short\<close> is the
  text before the first \<open>/\<close> and \<open>long\<close> is the text after it without its \<open>/\<close>.
  Otherwise the failure is a \<open>SyntaxError\<close>.
\<close>

theorem parse_many_separators:
  assumes "1 < count_list (portion s) CHR ''/''"
  shows "if (\<forall>c\<in>set (portion s). c = CHR ''/'' \<or> is_word_char c) \<and> sep_stripped (portion s) \<noteq> []
         then parse s = Inr (takeWhile (\<lambda>c. c \<noteq> CHR ''/'') (portion s), sep_stripped (portion s),
                             CHR ''='' \<in> set s, drop (Suc (length (portion s))) s)
         else \<exists>m. parse s = Inl (SyntaxError m)"
proof -
  have "count_list (portion s) CHR ''/'' \<noteq> 0"
    using assms by simp
  then have "CHR ''/'' \<in> set (portion s)"
    by (simp add: count_list_0_iff)
  then show ?thesis
    by (simp add: parse_eq bad_char_error_def Let_def)
qed

theorem parse_many_separators_witness:
  "1 < count_list (portion ''i//input=file'') CHR ''/''
   \<and> parse ''i//input=file'' = Inr (''i'', ''input'', True, ''file'')"
  using parse_many_separators [of "''i//input=file''"]
  by (simp add: portion_def sep_stripped_def is_word_char_def)

text \<open>
  C2, as the claim states it, fails: the declaration \<open>a/b/c\<close> has two \<open>/\<close> and parses,
  to the short \<open>a\<close> and the long \<open>bc\<close>.
\<close>

theorem parse_two_separators_accepted:
  "parse ''a/b/c'' = Inr (''a'', ''bc'', False, [])"
  by (simp add: parse_def js_defs)

text \<open>
  C7: the round trip. For every declaration that \<open>parse\<close> accepts, the descriptor
  built from it renders as \<open>short/long\<close>, followed by \<open>=placeholder\<close> exactly when it
  captures, and parsing that rendering gives the same four fields.
\<close>

theorem parse_toString_roundtrip:
  assumes "parse s = Inr (sh, lo, cap, ph)"
  shows "\<exists>a. ArgOpt_constructor s desc = Inr a
           \<and> short a = sh \<and> long a = lo \<and> capture a = cap \<and> placeholder a = ph
           \<and> toString a = sh @ ''/'' @ lo @ (if cap then ''='' @ ph else [])
           \<and> parse (toString a) = Inr (sh, lo, cap, ph)"
proof -
  let ?p = "portion s"
  from assms have ok: "\<forall>c\<in>set ?p. c = CHR ''/'' \<or> is_word_char c"
    and sep: "CHR ''/'' \<in> set ?p" and ne: "sep_stripped ?p \<noteq> []"
    and sh: "sh = takeWhile (\<lambda>c. c \<noteq> CHR ''/'') ?p" and lo: "lo = sep_stripped ?p"
    and cap: "cap = (CHR ''='' \<in> set s)" and ph: "ph = drop (Suc (length ?p)) s"
    by (auto simp: parse_eq split: if_splits)
  have sh_word: "\<forall>c\<in>set sh. is_word_char c"
    using ok unfolding sh by (auto dest: set_takeWhileD)
  have lo_word: "\<forall>c\<in>set lo. is_word_char c"
    using ok unfolding lo sep_stripped_def by (auto dest: set_dropWhileD)
  have nocap: "\<not> cap \<Longrightarrow> ph = []"
    unfolding cap ph portion_def by (simp add: takeWhile_notin)
  let ?x = "sh @ CHR ''/'' # lo"
  have x_noeq: "CHR ''='' \<notin> set ?x"
    using sh_word lo_word by (auto dest: word_char_not_sep)
  have x_ok: "\<forall>c\<in>set ?x. c = CHR ''/'' \<or> is_word_char c"
    using sh_word lo_word by auto
  have sh_nosep: "CHR ''/'' \<notin> set sh" and lo_nosep: "CHR ''/'' \<notin> set lo"
    using sh_word lo_word by (auto dest: word_char_not_sep)
  have tw: "takeWhile (\<lambda>c. c \<noteq> CHR ''/'') ?x = sh"
    using sh_nosep by (simp add: takeWhile_append)
  have ss: "sep_stripped ?x = lo"
    using sh_nosep lo_nosep by (auto simp: sep_stripped_def dropWhile_append filter_id_conv)
  have lo_ne: "lo \<noteq> []" using ne lo by simp
  let ?a = "\<lparr>short = sh, long = lo, placeholder = ph, description = desc,
             capture = cap, captured = [], proc = False\<rparr>"
  have ctor: "ArgOpt_constructor s desc = Inr ?a"
    using assms by (simp add: ArgOpt_constructor_def)
  have ts: "toString ?a = sh @ ''/'' @ lo @ (if cap then ''='' @ ph else [])"
    using nocap by (simp add: toString_def)
  have reparse: "parse (sh @ ''/'' @ lo @ (if cap then ''='' @ ph else [])) = Inr (sh, lo, cap, ph)"
  proof (cases cap)
    case True
    have "sh @ ''/'' @ lo @ ''='' @ ph = ?x @ CHR ''='' # ph" by simp
    moreover have "parse (?x @ CHR ''='' # ph) = Inr (sh, lo, True, ph)"
      unfolding parse_eq portion_of_canonical(1)[OF x_noeq]
      using x_ok tw ss lo_ne by simp
    ultimately show ?thesis using True by simp
  next
    case False
    have "parse ?x = Inr (sh, lo, False, [])"
      unfolding parse_eq portion_of_canonical(2)[OF x_noeq]
      using x_ok tw ss lo_ne x_noeq by simp
    then show ?thesis using False nocap by simp
  qed
  show ?thesis using ctor ts reparse by (intro exI[of _ ?a]) simp
qed

theorem parse_toString_roundtrip_witness:
  "parse ''i/input=file_path'' = Inr (''i'', ''input'', True, ''file_path'')
   \<and> (\<exists>a. ArgOpt_constructor ''i/input=file_path'' ''the input'' = Inr a
          \<and> toString a = ''i/input=file_path''
          \<and> parse (toString a) = Inr (''i'', ''input'', True, ''file_path''))"
proof -
  have h: "parse ''i/input=file_path'' = Inr (''i'', ''input'', True, ''file_path'')"
    by (simp add: parse_def js_defs)
  from parse_toString_roundtrip [OF h, of "''the input''"] h show ?thesis
    by auto
qed

section \<open>The query methods\<close>

lemma proced_value_registered:
  assumes "map_of (opts ap) l = Some a"
  shows "proced ap l = Inr (Some (proc a))" and "value_of ap l = Inr (Some (captured a))"
  using assms by (simp_all add: proced_def value_of_def opts_lookup_def)

lemma proced_value_unknown:
  assumes "map_of (opts ap) l = None" and "opts_proto ap = None"
    and "l \<notin> set Object_prototype_keys"
  shows "proced ap l = Inl TypeError" and "value_of ap l = Inl TypeError"
  using assms by (simp_all add: proced_def value_of_def opts_lookup_def)

text \<open>
  A descriptor pushed under the long \<open>__proto__\<close> becomes the prototype and no entry
  of the registry; \<open>proced("__proto__")\<close> then reads its flag, the names of its
  fields read as \<open>undefined\<close>, and any other unknown key still throws.
\<close>

lemma proto_key_sets_prototype:
  "pushOpt demo (help_opt\<lparr>long := ''__proto__'', short := ''p'', proc := True\<rparr>)
     = Inr (demo\<lparr>opts_proto := Some (help_opt\<lparr>long := ''__proto__'', short := ''p'', proc := True\<rparr>)\<rparr>)"
  "proced (demo\<lparr>opts_proto := Some (help_opt\<lparr>long := ''__proto__'', short := ''p'', proc := True\<rparr>)\<rparr>)
      ''__proto__'' = Inr (Some True)"
  "proced (demo\<lparr>opts_proto := Some (help_opt\<lparr>long := ''__proto__'', short := ''p'', proc := True\<rparr>)\<rparr>)
      ''short'' = Inr None"
  "proced (demo\<lparr>opts_proto := Some (help_opt\<lparr>long := ''__proto__'', short := ''p'', proc := True\<rparr>)\<rparr>)
      ''nope'' = Inl TypeError"
  by (simp_all add: pushOpt_def dropOpt_def proced_def registry_defs example_defs)

text \<open>
  C1: after the pass over \<open>["app", "--help"]\<close>, the registered key \<open>help\<close> gives its hit
  flag and its captured string, and the unknown key \<open>nope\<close> makes both query methods
  throw a \<open>TypeError\<close> where their documentation promises \<open>undefined\<close>.
\<close>

theorem query_unknown_key_throws:
  "proced (snd (process demo [''app'', ''--help''])) ''help'' = Inr (Some True)
   \<and> value_of (snd (process demo [''app'', ''--help''])) ''help'' = Inr (Some [])
   \<and> proced (snd (process demo [''app'', ''--help''])) ''nope'' = Inl TypeError
   \<and> value_of (snd (process demo [''app'', ''--help''])) ''nope'' = Inl TypeError"
  by (simp add: proced_def value_of_def pass_defs js_defs registry_defs example_defs)

section \<open>Registry construction and insertion\<close>

lemma constructor_match_None:
  "constructor_match iter opt miter ms = None \<longleftrightarrow>
     (\<forall>j<length ms. miter + j \<noteq> iter \<longrightarrow>
        short opt \<noteq> short (ms ! j) \<and> long opt \<noteq> long (ms ! j))"
  by (induction ms arbitrary: miter) (auto simp: All_less_Suc2)

lemma constructor_match_Some:
  "constructor_match iter opt miter ms = Some e \<Longrightarrow> \<exists>m. e = ReferenceError m"
  by (induction ms arbitrary: miter) (auto split: if_splits)

lemma constructor_loop_Inl:
  "constructor_loop all iter rest obj = Inl e \<Longrightarrow> \<exists>m. e = ReferenceError m"
  by (induction rest arbitrary: iter obj) (auto split: option.splits dest: constructor_match_Some)

lemma constructor_loop_Inr:
  "(\<exists>obj'. constructor_loop all iter rest obj = Inr obj') \<longleftrightarrow>
     (\<forall>k<length rest. constructor_match (iter + k) (rest ! k) 0 all = None)"
  by (induction rest arbitrary: iter obj) (auto simp: All_less_Suc2 split: option.splits)

lemma constructor_loop_all:
  "(\<exists>obj'. constructor_loop os 0 os ([], None) = Inr obj') \<longleftrightarrow>
     distinct (map short os) \<and> distinct (map long os)"
proof -
  have "(\<exists>obj'. constructor_loop os 0 os ([], None) = Inr obj') \<longleftrightarrow>
        (\<forall>k<length os. \<forall>j<length os. j \<noteq> k \<longrightarrow>
           short (os ! k) \<noteq> short (os ! j) \<and> long (os ! k) \<noteq> long (os ! j))"
    by (simp add: constructor_loop_Inr constructor_match_None del: split_paired_Ex)
  also have "\<dots> \<longleftrightarrow> distinct (map short os) \<and> distinct (map long os)"
    by (auto simp: distinct_conv_nth)
  finally show ?thesis .
qed

lemma pushOpt_match_None:
  "pushOpt_match opt ms = None \<longleftrightarrow>
     \<not> (\<exists>mopt\<in>set ms. short mopt = short opt \<and> long mopt \<noteq> long opt)"
  by (induction ms) auto

lemma pushOpt_match_Some:
  "pushOpt_match opt ms = Some e \<Longrightarrow> \<exists>m. e = ReferenceError m"
  by (induction ms) (auto split: if_splits)

text \<open>
  C3, as the code has it. The two collision tests compare the shorts as strings and
  have no exemption for the empty short. Construction from a list succeeds exactly
  when no two descriptors at different positions have the same \<open>short\<close> or the same
  \<open>long\<close>, and fails with a \<open>ReferenceError\<close> otherwise; \<open>pushOpt\<close> fails with a
  \<open>ReferenceError\<close> exactly when an entry of the registry has the short of the new
  descriptor, empty or not, and another long, and succeeds otherwise.
\<close>

theorem short_collision_rejected:
  "((\<exists>ap. ArgProcessor_constructor os = Inr ap) \<longleftrightarrow>
      distinct (map short os) \<and> distinct (map long os))
   \<and> ((\<exists>m. ArgProcessor_constructor os = Inl (ReferenceError m)) \<longleftrightarrow>
      \<not> (distinct (map short os) \<and> distinct (map long os)))
   \<and> ((\<exists>ap'. pushOpt ap opt = Inr ap') \<longleftrightarrow>
      \<not> (\<exists>mopt\<in>snd ` set (opts ap). short mopt = short opt \<and> long mopt \<noteq> long opt))
   \<and> ((\<exists>m. pushOpt ap opt = Inl (ReferenceError m)) \<longleftrightarrow>
      (\<exists>mopt\<in>snd ` set (opts ap). short mopt = short opt \<and> long mopt \<noteq> long opt))"
proof -
  have c1: "(\<exists>ap. ArgProcessor_constructor os = Inr ap) \<longleftrightarrow>
      distinct (map short os) \<and> distinct (map long os)"
    unfolding constructor_loop_all[symmetric]
    by (auto simp: ArgProcessor_constructor_def split: sum.splits)
  have c2: "(\<exists>m. ArgProcessor_constructor os = Inl (ReferenceError m)) \<longleftrightarrow>
      \<not> (\<exists>ap. ArgProcessor_constructor os = Inr ap)"
    by (cases "constructor_loop os 0 os ([], None)")
       (auto simp: ArgProcessor_constructor_def dest: constructor_loop_Inl)
  have p1: "(\<exists>ap'. pushOpt ap opt = Inr ap') \<longleftrightarrow>
      \<not> (\<exists>mopt\<in>snd ` set (opts ap). short mopt = short opt \<and> long mopt \<noteq> long opt)"
    using pushOpt_match_None[of opt "map snd (opts ap)"]
    by (auto simp: pushOpt_def Let_def split: option.splits prod.splits)
  have p2: "(\<exists>m. pushOpt ap opt = Inl (ReferenceError m)) \<longleftrightarrow>
      \<not> (\<exists>ap'. pushOpt ap opt = Inr ap')"
    by (cases "pushOpt_match opt (map snd (opts ap))")
       (auto simp: pushOpt_def Let_def split: prod.splits dest: pushOpt_match_Some)
  show ?thesis using c1 c2 p1 p2 by blast
qed

theorem short_collision_rejected_witness:
  "(\<exists>ap. ArgProcessor_constructor [help_opt, input_opt] = Inr ap)
   \<and> (\<exists>m. ArgProcessor_constructor [help_opt, input_opt\<lparr>short := ''h''\<rparr>] = Inl (ReferenceError m))
   \<and> (\<exists>ap'. pushOpt demo (help_opt\<lparr>description := ''Show help.''\<rparr>) = Inr ap')
   \<and> (\<exists>m. pushOpt demo (input_opt\<lparr>long := ''include''\<rparr>) = Inl (ReferenceError m))"
  using short_collision_rejected
      [of "[help_opt, input_opt]" demo "help_opt\<lparr>description := ''Show help.''\<rparr>"]
    short_collision_rejected
      [of "[help_opt, input_opt\<lparr>short := ''h''\<rparr>]" demo "input_opt\<lparr>long := ''include''\<rparr>"]
  by (simp add: example_defs)

text \<open>
  C3, as the claim states it, fails: the descriptors of \<open>/help\<close> and \<open>/input\<close> have
  different longs and both an empty short, and both the constructor and \<open>pushOpt\<close>
  reject them for having the same short.
\<close>

theorem empty_shorts_rejected:
  \<open>ArgProcessor_constructor [long_help_opt, long_input_opt]
     = Inl (ReferenceError ''"/help" in "opts[0]" and "/input" in "opts[1]" have an identical short.'')
   \<and> pushOpt \<lparr>strict = True, opts = [(''help'', long_help_opt)], opts_proto = None\<rparr> long_input_opt
     = Inl (ReferenceError ''/input and /help have the same short.'')\<close>
  by (simp add: ArgProcessor_constructor_def pushOpt_def message_defs js_defs example_defs)

section \<open>The processing pass: what a pass leaves behind\<close>

lemma resetOpt_eq: "resetOpt ap = ap\<lparr>opts := reset_reg (opts ap)\<rparr>"
  by (simp add: resetOpt_def reset_reg_def)

lemma reset_reg_modify:
  assumes "\<And>a. (f a)\<lparr>captured := [], proc := False\<rparr> = a\<lparr>captured := [], proc := False\<rparr>"
  shows "reset_reg (opts_modify k f r) = reset_reg r"
  using assms by (induction r) (auto simp: opts_modify_def reset_reg_def)

lemma reset_reg_idem: "reset_reg (reset_reg r) = reset_reg r"
  by (induction r) (auto simp: reset_reg_def)

lemma on_match_reset:
  "on_match arg optKey hn keyOpt argOpt st = Inr st' \<Longrightarrow> reset_reg (reg st') = reset_reg (reg st)"
  "on_match arg optKey hn keyOpt argOpt st = Inl (e, r) \<Longrightarrow> reset_reg r = reset_reg (reg st)"
  by (auto simp: on_match_def Let_def reset_reg_modify split: if_splits)

lemma process_arg_reset:
  "process_arg strct arg rest st = Inr st' \<Longrightarrow> reset_reg (reg st') = reset_reg (reg st)"
  "process_arg strct arg rest st = Inl (e, r) \<Longrightarrow> reset_reg r = reset_reg (reg st)"
  by (auto simp: process_arg_def Let_def reset_reg_modify
      split: if_splits prod.splits option.splits sum.splits dest: on_match_reset)

lemma process_loop_reset:
  "process_loop strct args st = Inr st' \<Longrightarrow> reset_reg (reg st') = reset_reg (reg st)"
  "process_loop strct args st = Inl (e, r) \<Longrightarrow> reset_reg r = reset_reg (reg st)"
  by (induction args arbitrary: st) (auto split: sum.splits dest: process_arg_reset)

lemma resetOpt_process: "resetOpt (snd (process ap args)) = resetOpt ap"
proof -
  let ?st0 = "\<lparr>reg = reset_reg (opts ap), filtered = [], captureNext = False, lastCapKey = []\<rparr>"
  show ?thesis
  proof (cases "process_loop (strict ap) args ?st0")
    case (Inl p)
    obtain e r where p: "p = (e, r)" by (cases p)
    from process_loop_reset(2)[OF Inl[unfolded p]]
    have "reset_reg r = reset_reg (opts ap)" by (simp add: reset_reg_idem)
    then show ?thesis
      by (simp add: process_def resetOpt_eq Let_def Inl p reset_reg_idem)
  next
    case (Inr st)
    from process_loop_reset(1)[OF Inr]
    have "reset_reg (reg st) = reset_reg (opts ap)" by (simp add: reset_reg_idem)
    then show ?thesis
      by (simp add: process_def resetOpt_eq Let_def Inr reset_reg_idem)
  qed
qed

text \<open>
  C8: a second pass over the same tokens, on the processor the first pass left, has
  the same outcome (the array returned or the exception thrown) and leaves the same
  hit flags and captured values. The pass starts from the reset registry, in which no
  descriptor is hit and every captured value is empty, so what an earlier pass left
  cannot be seen.
\<close>

theorem process_idempotent:
  "process (snd (process ap args)) args = process ap args
   \<and> process ap args = process (resetOpt ap) args
   \<and> list_all (\<lambda>(key, opt). \<not> proc opt \<and> captured opt = []) (opts (resetOpt ap))"
proof -
  have 1: "process ap' args = process ap args" if "resetOpt ap' = resetOpt ap" for ap'
    using that unfolding process_def by simp
  have 2: "resetOpt (resetOpt ap) = resetOpt ap"
    by (simp add: resetOpt_eq reset_reg_idem)
  have 3: "list_all (\<lambda>(key, opt). \<not> proc opt \<and> captured opt = []) (opts (resetOpt ap))"
    by (auto simp: resetOpt_def list_all_iff)
  show ?thesis using 1[OF resetOpt_process] 1[OF 2] 3 by simp
qed

theorem process_idempotent_witness:
  "process (snd (process demo [''app'', ''-i'', ''img.png''])) [''app'', ''-i'', ''img.png'']
     = process demo [''app'', ''-i'', ''img.png'']"
  using process_idempotent [of demo "[''app'', ''-i'', ''img.png'']"]
  by (rule conjunct1)

lemma on_match_filtered:
  "on_match arg optKey hn keyOpt argOpt st = Inr st' \<Longrightarrow> filtered st' = filtered st"
  by (auto simp: on_match_def Let_def split: if_splits)

lemma process_arg_filtered:
  "process_arg strct arg rest st = Inr st' \<Longrightarrow>
     filtered st' = filtered st \<or> filtered st' = filtered st @ [arg]"
  by (auto simp: process_arg_def Let_def
      split: if_splits prod.splits option.splits sum.splits dest: on_match_filtered)

lemma process_loop_filtered:
  "process_loop strct args st = Inr st' \<Longrightarrow>
     \<exists>ys. filtered st' = filtered st @ ys \<and> subseq ys args"
proof (induction args arbitrary: st)
  case Nil
  then show ?case by simp
next
  case (Cons arg rest)
  from Cons.prems obtain st1 where s1: "process_arg strct arg rest st = Inr st1"
    and l: "process_loop strct rest st1 = Inr st'"
    by (auto split: sum.splits)
  from Cons.IH[OF l] obtain ys where ys: "filtered st' = filtered st1 @ ys" "subseq ys rest"
    by blast
  from process_arg_filtered[OF s1] show ?case
  proof
    assume "filtered st1 = filtered st"
    with ys show ?thesis by (intro exI[of _ ys]) auto
  next
    assume "filtered st1 = filtered st @ [arg]"
    with ys show ?thesis by (intro exI[of _ "arg # ys"]) simp
  qed
qed

text \<open>
  The matching of the code against the matching of the spec: on a registry without
  \<open>=\<close> in its shorts and longs, a token is matched by the loop to a descriptor exactly
  when the spec's lookup matches it, and to the same descriptor.
\<close>

lemma optKey_of_spec_form:
  "optKey_of arg = (case spec_form arg of None \<Rightarrow> ([], False) | Some (lng, key) \<Rightarrow> (key, lng))"
  by (auto simp: optKey_of_def spec_form_def startsWith_def substring1_def js_clamp_def min_def
      numeral_2_eq_2)

lemma find_match_find:
  "map_option snd (find_match lng key r)
     = find (\<lambda>a. if lng then long a = key else short a = key) (map snd r)"
  by (induction r) auto

lemma find_match_plain:
  assumes "plain_keys r" and "CHR ''='' \<in> set key"
  shows "find_match lng key r = None"
  using assms by (induction r) (auto simp: plain_keys_def)

lemma key_of_cases:
  assumes "optKey \<noteq> []"
  shows "key_of optKey = (if takeWhile (\<lambda>c. c \<noteq> CHR ''='') optKey = [] then optKey
                          else takeWhile (\<lambda>c. c \<noteq> CHR ''='') optKey)"
proof (cases "CHR ''='' \<in> set optKey")
  case True
  have "length (takeWhile (\<lambda>c. c \<noteq> CHR ''='') optKey) \<le> length optKey"
    by (rule length_takeWhile_le)
  then show ?thesis using True
    by (simp add: key_of_def js_search_def substring2_def js_clamp_def takeWhile_eq_take[symmetric])
next
  case False
  then show ?thesis using assms
    by (simp add: key_of_def js_search_def substring2_def js_clamp_def takeWhile_notin
        del: takeWhile_eq_all_conv)
qed

lemma code_match_spec:
  assumes "plain_keys r" and "optKey_of arg = (optKey, lng)"
  shows "spec_match r arg = (if optKey = [] then None
                             else map_option snd (find_match lng (key_of optKey) r))"
proof (cases "spec_form arg")
  case None
  then show ?thesis using assms(2) by (simp add: optKey_of_spec_form spec_match_def)
next
  case (Some p)
  obtain l k where p: "p = (l, k)" by (cases p)
  with Some assms(2) have eq: "k = optKey" "l = lng"
    by (simp_all add: optKey_of_spec_form)
  show ?thesis
  proof (cases "optKey = []")
    case True
    then show ?thesis using Some p eq by (simp add: spec_match_def)
  next
    case False
    show ?thesis
    proof (cases "takeWhile (\<lambda>c. c \<noteq> CHR ''='') optKey = []")
      case True
      with False have "CHR ''='' \<in> set optKey"
        by (cases optKey) (auto split: if_splits)
      then have "find_match lng optKey r = None"
        using assms(1) by (rule find_match_plain[rotated])
      then show ?thesis using Some p eq True False
        by (simp add: spec_match_def key_of_cases)
    next
      case nonempty: False
      then show ?thesis using Some p eq False
        by (simp add: spec_match_def key_of_cases find_match_find Let_def)
    qed
  qed
qed


lemma spec_inline_optKey:
  assumes "optKey_of arg = (optKey, lng)"
  shows "spec_inline arg = (CHR ''='' \<in> set optKey)"
  using assms by (auto simp: optKey_of_spec_form spec_inline_def split: option.splits)

lemma find_match_reset_reg:
  "find_match lng key (reset_reg r)
     = map_option (\<lambda>(k, a). (k, a\<lparr>captured := [], proc := False\<rparr>)) (find_match lng key r)"
  by (induction r) (auto simp: reset_reg_def)

lemma find_reset_reg:
  assumes "\<And>a. P (a\<lparr>captured := [], proc := False\<rparr>) = P a"
  shows "find P (map snd (reset_reg r))
           = map_option (\<lambda>a. a\<lparr>captured := [], proc := False\<rparr>) (find P (map snd r))"
  by (induction r) (simp_all add: reset_reg_def assms split_beta)

lemma spec_match_reset_reg:
  "spec_match (reset_reg r) t
     = map_option (\<lambda>a. a\<lparr>captured := [], proc := False\<rparr>) (spec_match r t)"
proof (cases "spec_form t")
  case None
  then show ?thesis by (simp add: spec_match_def)
next
  case (Some p)
  obtain lng key where p: "p = (lng, key)" by (cases p)
  show ?thesis
    by (simp add: spec_match_def Some p Let_def find_reset_reg)
qed

lemma spec_scan_reset_reg: "spec_scan (reset_reg r) aw ts = spec_scan r aw ts"
proof (induction ts arbitrary: aw)
  case Nil
  then show ?case by simp
next
  case (Cons t ts)
  show ?case
  proof (cases aw)
    case True
    then show ?thesis by (simp add: Cons)
  next
    case False
    then show ?thesis
      by (cases "spec_match r t") (simp_all add: spec_match_reset_reg Cons)
  qed
qed

lemma plain_keys_reset_reg: "plain_keys (reset_reg r) = plain_keys r"
  by (induction r) (auto simp: plain_keys_def reset_reg_def)

lemma spec_scan_same_reset:
  "reset_reg r' = reset_reg r \<Longrightarrow> spec_scan r' aw ts = spec_scan r aw ts"
  using spec_scan_reset_reg[of r' aw ts] spec_scan_reset_reg[of r aw ts] by simp

lemma plain_keys_same_reset:
  "reset_reg r' = reset_reg r \<Longrightarrow> plain_keys r' = plain_keys r"
  using plain_keys_reset_reg[of r'] plain_keys_reset_reg[of r] by simp


lemma on_match_effect:
  assumes "on_match arg optKey hn keyOpt argOpt st = Inr st'"
  shows "filtered st' = filtered st"
    and "captureNext st' = (captureNext st \<or> (capture argOpt \<and> CHR ''='' \<notin> set optKey))"
  using assms by (auto simp: on_match_def Let_def js_search_def split: if_splits)

lemma process_arg_spec:
  assumes "process_arg strct arg rest st = Inr st'" and "plain_keys (reg st)"
  shows "filtered st @ spec_scan (reg st) (captureNext st) (arg # rest)
           = filtered st' @ spec_scan (reg st) (captureNext st') rest"
proof (cases "captureNext st")
  case True
  with assms(1) show ?thesis by (auto simp: process_arg_def)
next
  case False
  obtain optKey lng where ok: "optKey_of arg = (optKey, lng)" by (cases "optKey_of arg")
  note sm = code_match_spec[OF assms(2) ok]
  show ?thesis
  proof (cases "optKey = []")
    case True
    with assms(1) False ok sm show ?thesis
      by (auto simp: process_arg_def)
  next
    case nonempty: False
    show ?thesis
    proof (cases "find_match lng (key_of optKey) (reg st)")
      case None
      with assms(1) False ok sm nonempty show ?thesis
        by (auto simp: process_arg_def split: if_splits)
    next
      case (Some p)
      obtain keyOpt argOpt where p: "p = (keyOpt, argOpt)" by (cases p)
      from assms(1) False ok nonempty Some p
      have om: "on_match arg optKey (rest \<noteq> []) keyOpt argOpt st = Inr st'"
        by (auto simp: process_arg_def split: sum.splits)
      from on_match_effect[OF om] False sm nonempty Some p spec_inline_optKey[OF ok]
      show ?thesis by simp
    qed
  qed
qed

lemma process_loop_spec:
  assumes "process_loop strct args st = Inr st'" and "plain_keys (reg st)"
  shows "filtered st' = filtered st @ spec_scan (reg st) (captureNext st) args"
  using assms
proof (induction args arbitrary: st)
  case Nil
  then show ?case by simp
next
  case (Cons arg rest)
  from Cons.prems(1) obtain st1 where s1: "process_arg strct arg rest st = Inr st1"
    and l: "process_loop strct rest st1 = Inr st'"
    by (auto split: sum.splits)
  have same: "reset_reg (reg st1) = reset_reg (reg st)"
    by (rule process_arg_reset(1)[OF s1])
  have "plain_keys (reg st1)"
    using Cons.prems(2) plain_keys_same_reset[OF same] by simp
  from Cons.IH[OF l this]
  have "filtered st' = filtered st1 @ spec_scan (reg st) (captureNext st1) rest"
    by (simp add: spec_scan_same_reset[OF same])
  with process_arg_spec[OF s1 Cons.prems(2)] show ?case by simp
qed

lemma subseq_spec_scan: "subseq (spec_scan r aw ts) ts"
  by (induction r aw ts rule: spec_scan.induct) (auto split: option.splits)

lemma process_spec_positional:
  assumes "fst (process ap args) = Inr out" and "plain_keys (opts ap)"
  shows "out = spec_positional (opts ap) args"
proof -
  let ?st0 = "\<lparr>reg = reset_reg (opts ap), filtered = [], captureNext = False, lastCapKey = []\<rparr>"
  from assms(1) obtain st where l: "process_loop (strict ap) args ?st0 = Inr st"
    and out: "out = filtered st"
    by (auto simp: process_def resetOpt_eq Let_def split: sum.splits prod.splits)
  have "plain_keys (reg ?st0)" using assms(2) by (simp add: plain_keys_reset_reg)
  from process_loop_spec[OF l this] out show ?thesis
    by (simp add: spec_positional_def spec_scan_reset_reg)
qed

text \<open>A descriptor built from a declaration string has no \<open>=\<close> in its short and long.\<close>

lemma constructed_plain:
  assumes "ArgOpt_constructor s d = Inr a"
  shows "CHR ''='' \<notin> set (short a) \<and> CHR ''='' \<notin> set (long a)"
proof -
  from assms obtain sh lo cap ph where p: "parse s = Inr (sh, lo, cap, ph)"
    and a: "short a = sh" "long a = lo"
    by (auto simp: ArgOpt_constructor_def split: sum.splits)
  from p have ok: "\<forall>c\<in>set (portion s). c = CHR ''/'' \<or> is_word_char c"
    and sh: "sh = takeWhile (\<lambda>c. c \<noteq> CHR ''/'') (portion s)" and lo: "lo = sep_stripped (portion s)"
    by (auto simp: parse_eq split: if_splits)
  have "\<forall>c\<in>set sh. is_word_char c"
    using ok unfolding sh by (auto dest: set_takeWhileD)
  moreover have "\<forall>c\<in>set lo. is_word_char c"
    using ok unfolding lo sep_stripped_def by (auto dest: set_dropWhileD)
  ultimately show ?thesis using a by (auto dest: word_char_not_sep)
qed


text \<open>
  On a registry in which no short and no long is empty, the rule that an empty lookup
  key matches nothing changes nothing: the spec's lookup is the plain search of
  step 2d.
\<close>

lemma spec_match_no_empty_keys:
  assumes "\<forall>(k, a)\<in>set r. short a \<noteq> [] \<and> long a \<noteq> []"
  shows "spec_match r t =
     (case spec_form t of
        None \<Rightarrow> None
      | Some (lng, key) \<Rightarrow>
          find (\<lambda>a. if lng then long a = takeWhile (\<lambda>c. c \<noteq> CHR ''='') key
                     else short a = takeWhile (\<lambda>c. c \<noteq> CHR ''='') key) (map snd r))"
  using assms
  by (fastforce simp: spec_match_def Let_def find_None_iff find_None_iff2 split: option.splits)

text \<open>
  C9: the array a pass returns is exactly the list of the positional tokens of its
  input as the spec defines them, the tokens that are neither matched to a descriptor
  nor consumed as a captured value, in their original order (on a registry without
  \<open>=\<close> in its shorts and longs); it is a subsequence of the input for every
  registry; and with \<open>help\<close> not capturing and \<open>input\<close> capturing, the input
  \<open>["a", "--help", "b", "-i", "c", "d"]\<close> gives \<open>["a", "b", "d"]\<close>.
\<close>

theorem process_positional_order:
  "(plain_keys (opts ap) \<and> fst (process ap args) = Inr out \<longrightarrow> out = spec_positional (opts ap) args)
   \<and> (fst (process ap args) = Inr out \<longrightarrow> subseq out args)
   \<and> fst (process demo [''a'', ''--help'', ''b'', ''-i'', ''c'', ''d'']) = Inr [''a'', ''b'', ''d'']"
proof -
  have "subseq out args" if "fst (process ap args) = Inr out"
  proof -
    from that obtain st where
      "process_loop (strict (resetOpt ap)) args
         \<lparr>reg = opts (resetOpt ap), filtered = [], captureNext = False, lastCapKey = []\<rparr> = Inr st"
      and "out = filtered st"
      by (auto simp: process_def Let_def split: sum.splits prod.splits)
    with process_loop_filtered show ?thesis by fastforce
  qed
  moreover have "fst (process demo [''a'', ''--help'', ''b'', ''-i'', ''c'', ''d'']) = Inr [''a'', ''b'', ''d'']"
    by (simp add: pass_defs js_defs registry_defs example_defs)
  ultimately show ?thesis using process_spec_positional by blast
qed

theorem process_positional_order_witness:
  "plain_keys (opts demo)
   \<and> fst (process demo [''a'', ''--help'', ''b'', ''-i'', ''c'', ''d'']) = Inr [''a'', ''b'', ''d'']
   \<and> spec_positional (opts demo) [''a'', ''--help'', ''b'', ''-i'', ''c'', ''d''] = [''a'', ''b'', ''d'']
   \<and> subseq [''a'', ''b'', ''d''] [''a'', ''--help'', ''b'', ''-i'', ''c'', ''d'']
   \<and> fst (process (demo\<lparr>strict := False\<rparr>) [''x'', ''--nope'', ''-'', ''-i=1'', ''y''])
       = Inr [''x'', ''--nope'', ''-'', ''y'']
   \<and> spec_positional (opts demo) [''x'', ''--nope'', ''-'', ''-i=1'', ''y'']
       = [''x'', ''--nope'', ''-'', ''y'']"
proof -
  have a: "plain_keys (opts demo)"
    by (simp add: plain_keys_def example_defs)
  have b: "fst (process (demo\<lparr>strict := False\<rparr>) [''x'', ''--nope'', ''-'', ''-i=1'', ''y''])
       = Inr [''x'', ''--nope'', ''-'', ''y'']"
    by (simp add: pass_defs js_defs registry_defs example_defs)
  have c: "plain_keys (opts (demo\<lparr>strict := False\<rparr>))" using a by simp
  note t1 = process_positional_order
      [of demo "[''a'', ''--help'', ''b'', ''-i'', ''c'', ''d'']" "[''a'', ''b'', ''d'']"]
  note t2 = process_positional_order
      [of "demo\<lparr>strict := False\<rparr>" "[''x'', ''--nope'', ''-'', ''-i=1'', ''y'']"
          "[''x'', ''--nope'', ''-'', ''y'']"]
  from t1 have p1: "fst (process demo [''a'', ''--help'', ''b'', ''-i'', ''c'', ''d''])
                      = Inr [''a'', ''b'', ''d'']"
    by blast
  from t1 a p1 have s1: "[''a'', ''b'', ''d'']
      = spec_positional (opts demo) [''a'', ''--help'', ''b'', ''-i'', ''c'', ''d'']"
    by blast
  from t1 p1 have q1: "subseq [''a'', ''b'', ''d''] [''a'', ''--help'', ''b'', ''-i'', ''c'', ''d'']"
    by blast
  from t2 b c have "[''x'', ''--nope'', ''-'', ''y'']
      = spec_positional (opts (demo\<lparr>strict := False\<rparr>)) [''x'', ''--nope'', ''-'', ''-i=1'', ''y'']"
    by blast
  then have s2: "spec_positional (opts demo) [''x'', ''--nope'', ''-'', ''-i=1'', ''y'']
      = [''x'', ''--nope'', ''-'', ''y'']"
    by simp
  show ?thesis
    using a p1 s1[symmetric] q1 b s2 by (intro conjI)
qed

section \<open>The processing pass: one token\<close>

text \<open>
  The theorems of this section are about the loop at an arbitrary token: \<open>st\<close> is the
  state of the loop when it reaches the token \<open>arg\<close>, and \<open>rest\<close> are the tokens
  after it. \<open>process\<close> runs the loop from the state with the reset registry, an empty
  \<open>filtered\<close> and \<open>captureNext\<close> unset.
\<close>

text \<open>
  An iteration that sets \<open>captureNext\<close> leaves in \<open>lastCapKey\<close> a key of the registry,
  so the store \<open>this.opts[lastCapKey].captured = arg\<close> of the next iteration finds its
  descriptor.
\<close>

lemma find_match_Some_key:
  "find_match lng key r = Some (keyOpt, argOpt) \<Longrightarrow> keyOpt \<in> fst ` set r"
  by (induction r) (force split: if_splits)+

lemma keys_opts_modify: "fst ` set (opts_modify k f r) = fst ` set r"
  by (induction r) (auto simp: opts_modify_def)

lemma pending_key_registered:
  assumes "process_arg strct arg rest st = Inr st'" and "captureNext st'"
  shows "lastCapKey st' \<in> fst ` set (reg st')"
proof -
  from assms obtain optKey lng keyOpt argOpt where
    "find_match lng (key_of optKey) (reg st) = Some (keyOpt, argOpt)"
    and "lastCapKey st' = keyOpt"
    and "reg st' = opts_modify keyOpt (\<lambda>a. a\<lparr>proc := True\<rparr>) (reg st)"
    by (auto simp: process_arg_def on_match_def Let_def
        split: if_splits prod.splits option.splits sum.splits)
  then show ?thesis
    by (simp add: keys_opts_modify find_match_Some_key)
qed

text \<open>
  C6: a token with a non-empty key that matches no descriptor, met when the loop is
  not waiting for a value. In strict mode the pass throws a \<open>ReferenceError\<close> whose
  message quotes the raw token; in lenient mode the raw token is appended to
  \<open>filtered\<close> as it is and the loop goes on with the next token.
\<close>

theorem unrecognized_option:
  assumes "\<not> captureNext st" and "optKey_of arg = (optKey, lng)" and "optKey \<noteq> []"
    and "find_match lng (key_of optKey) (reg st) = None"
  shows "process_loop True (arg # rest) st
           = Inl (ReferenceError (''Unrecognized option: '' @ dq @ arg @ dq), reg st)
         \<and> process_loop False (arg # rest) st
           = process_loop False rest (st\<lparr>filtered := filtered st @ [arg]\<rparr>)"
proof -
  have "process_arg True arg rest st = Inl (unrecognized arg, reg st)"
    using assms by (simp add: process_arg_def)
  moreover have "process_arg False arg rest st = Inr (st\<lparr>filtered := filtered st @ [arg]\<rparr>)"
    using assms by (simp add: process_arg_def)
  ultimately show ?thesis
    by (simp add: unrecognized_def)
qed

theorem unrecognized_option_witness:
  \<open>process_loop True [''--nope'', ''x'']
       \<lparr>reg = opts demo, filtered = [''app''], captureNext = False, lastCapKey = []\<rparr>
     = Inl (ReferenceError ''Unrecognized option: "--nope"'', opts demo)
   \<and> process_loop False [''--nope'', ''x'']
       \<lparr>reg = opts demo, filtered = [''app''], captureNext = False, lastCapKey = []\<rparr>
     = Inr \<lparr>reg = opts demo, filtered = [''app'', ''--nope'', ''x''], captureNext = False,
            lastCapKey = []\<rparr>
   \<and> fst (process demo [''app'', ''--nope'']) = Inl (ReferenceError ''Unrecognized option: "--nope"'')
   \<and> fst (process (demo\<lparr>strict := False\<rparr>) [''app'', ''--nope'']) = Inr [''app'', ''--nope'']\<close>
proof -
  let ?st = "\<lparr>reg = opts demo, filtered = [''app''], captureNext = False, lastCapKey = []\<rparr>"
  have a: "\<not> captureNext ?st" by simp
  have b: "optKey_of ''--nope'' = (''nope'', True)"
    by (simp add: optKey_of_def js_defs)
  have c: "''nope'' \<noteq> []" by simp
  have d: "find_match True (key_of ''nope'') (reg ?st) = None"
    by (simp add: key_of_def js_defs example_defs)
  have e: "process_loop False [''x''] (?st\<lparr>filtered := filtered ?st @ [''--nope'']\<rparr>)
             = Inr (?st\<lparr>filtered := [''app'', ''--nope'', ''x'']\<rparr>)"
    by (simp add: process_arg_def optKey_of_def js_defs)
  have f: "fst (process demo [''app'', ''--nope''])
             = Inl (ReferenceError (''Unrecognized option: '' @ dq @ ''--nope'' @ dq))"
    "fst (process (demo\<lparr>strict := False\<rparr>) [''app'', ''--nope'']) = Inr [''app'', ''--nope'']"
    by (simp_all add: pass_defs js_defs registry_defs example_defs)
  from unrecognized_option [OF a b c d, of "[''x'']"] e f show ?thesis
    by (simp add: dq_def)
qed

text \<open>
  C5: a token that matches a capturing descriptor, met when the loop is not waiting
  for a value. If its key has an \<open>=\<close> with nothing after it, the pass throws the
  \<open>ReferenceError\<close> "must supply value"; if its key has no \<open>=\<close> and the token is the
  last one, the pass throws the same error. The descriptor is marked hit before the
  exception is thrown.
\<close>

theorem missing_value_fails:
  assumes "\<not> captureNext st" and "optKey_of arg = (optKey, lng)" and "optKey \<noteq> []"
    and "find_match lng (key_of optKey) (reg st) = Some (keyOpt, argOpt)"
    and "capture argOpt"
  shows "(js_search CHR ''='' optKey \<noteq> - 1 \<and> substring1 optKey (js_search CHR ''='' optKey + 1) = []
            \<longrightarrow> process_loop strct (arg # rest) st
                  = Inl (ReferenceError (''must supply value for '' @ dq @ arg @ dq @ ''.''),
                         opts_modify keyOpt (\<lambda>a. a\<lparr>proc := True\<rparr>) (reg st)))
         \<and> (js_search CHR ''='' optKey = - 1
            \<longrightarrow> process_loop strct [arg] st
                  = Inl (ReferenceError (''must supply value for '' @ dq @ arg @ dq @ ''.''),
                         opts_modify keyOpt (\<lambda>a. a\<lparr>proc := True\<rparr>) (reg st)))"
  using assms
  by (simp add: process_arg_def on_match_def must_supply_def Let_def)

theorem missing_value_fails_witness:
  \<open>process_loop True [''-i='', ''x'']
       \<lparr>reg = opts demo, filtered = [''app''], captureNext = False, lastCapKey = []\<rparr>
     = Inl (ReferenceError ''must supply value for "-i=".'',
            [(''help'', help_opt), (''input'', input_opt\<lparr>proc := True\<rparr>)])
   \<and> process_loop True [''-i'']
       \<lparr>reg = opts demo, filtered = [''app''], captureNext = False, lastCapKey = []\<rparr>
     = Inl (ReferenceError ''must supply value for "-i".'',
            [(''help'', help_opt), (''input'', input_opt\<lparr>proc := True\<rparr>)])
   \<and> fst (process demo [''app'', ''-i='', ''x'']) = Inl (ReferenceError ''must supply value for "-i=".'')
   \<and> fst (process demo [''app'', ''-i'']) = Inl (ReferenceError ''must supply value for "-i".'')\<close>
proof -
  let ?st = "\<lparr>reg = opts demo, filtered = [''app''], captureNext = False, lastCapKey = []\<rparr>"
  have a: "\<not> captureNext ?st" by simp
  have b: "optKey_of ''-i='' = (''i='', False)" "optKey_of ''-i'' = (''i'', False)"
    by (simp_all add: optKey_of_def js_defs)
  have c: "''i='' \<noteq> []" "''i'' \<noteq> []" by simp_all
  have d: "find_match False (key_of ''i='') (reg ?st) = Some (''input'', input_opt)"
    "find_match False (key_of ''i'') (reg ?st) = Some (''input'', input_opt)"
    by (simp_all add: key_of_def js_defs example_defs)
  have e: "capture input_opt" by (simp add: example_defs)
  have f: "fst (process demo [''app'', ''-i='', ''x''])
             = Inl (ReferenceError (''must supply value for '' @ dq @ ''-i='' @ dq @ ''.''))"
    "fst (process demo [''app'', ''-i''])
             = Inl (ReferenceError (''must supply value for '' @ dq @ ''-i'' @ dq @ ''.''))"
    by (simp_all add: pass_defs js_defs registry_defs example_defs)
  from missing_value_fails [OF a b(1) c(1) d(1) e, of True "[''x'']"]
    missing_value_fails [OF a b(2) c(2) d(2) e, of True "[]"] f
  show ?thesis
    by (simp add: js_defs opts_modify_def example_defs)
qed

text \<open>
  C10, as the code has it. The tokens \<open>-\<close> and \<open>--\<close> have an empty key, so the loop
  never compares them with a descriptor, not even with one whose short is empty, and
  never throws on them, whatever the registry and the mode. The token is appended to
  \<open>filtered\<close> as it is, unless it follows a capturing option that waits for its
  value: then it is consumed as that value, like any other token, and is not
  appended.
\<close>

theorem bare_dash_positional:
  assumes "arg = ''-'' \<or> arg = ''--''"
  shows "(\<not> captureNext st \<longrightarrow>
            process_loop strct (arg # rest) st
              = process_loop strct rest (st\<lparr>filtered := filtered st @ [arg]\<rparr>))
         \<and> (captureNext st \<longrightarrow>
            process_loop strct (arg # rest) st
              = process_loop strct rest
                  (st\<lparr>captureNext := False,
                      reg := opts_modify (lastCapKey st) (\<lambda>a. a\<lparr>captured := arg\<rparr>) (reg st),
                      lastCapKey := []\<rparr>))"
proof -
  have "optKey_of arg = ([], arg = ''--'')"
    using assms by (auto simp: optKey_of_def js_defs)
  then show ?thesis
    by (simp add: process_arg_def)
qed

theorem bare_dash_positional_witness:
  "process \<lparr>strict = True, opts = [(''help'', long_help_opt)], opts_proto = None\<rparr> [''-'', ''--'']
     = (Inr [''-'', ''--''], \<lparr>strict = True, opts = [(''help'', long_help_opt)], opts_proto = None\<rparr>)
   \<and> process \<lparr>strict = False, opts = [(''help'', long_help_opt)], opts_proto = None\<rparr> [''-'', ''--'']
     = (Inr [''-'', ''--''], \<lparr>strict = False, opts = [(''help'', long_help_opt)], opts_proto = None\<rparr>)"
proof -
  let ?st = "\<lparr>reg = [(''help'', long_help_opt)], filtered = [], captureNext = False, lastCapKey = []\<rparr>"
  have "process_loop strct [''-'', ''--''] ?st = Inr (?st\<lparr>filtered := [''-'', ''--'']\<rparr>)" for strct
  proof -
    have "process_loop strct [''-'', ''--''] ?st
            = process_loop strct [''--''] (?st\<lparr>filtered := [''-'']\<rparr>)"
      using bare_dash_positional [of "''-''" ?st strct "[''--'']"]
      by (simp del: process_loop.simps)
    also have "\<dots> = process_loop strct [] (?st\<lparr>filtered := [''-'', ''--'']\<rparr>)"
      using bare_dash_positional [of "''--''" "?st\<lparr>filtered := [''-'']\<rparr>" strct "[]"]
      by (simp del: process_loop.simps)
    finally show ?thesis by simp
  qed
  then show ?thesis
    by (simp add: process_def resetOpt_def example_defs del: process_loop.simps)
qed

text \<open>
  C10, as the claim states it, fails: after the capturing option \<open>-i\<close> the token
  \<open>-\<close> is not appended to the output, it becomes the captured value of \<open>input\<close>.
\<close>

theorem bare_dash_consumed_as_value:
  "process demo [''-i'', ''-'']
     = (Inr [], demo\<lparr>opts := [(''help'', help_opt),
                               (''input'', input_opt\<lparr>proc := True, captured := ''-''\<rparr>)]\<rparr>)"
  by (simp add: pass_defs js_defs registry_defs example_defs)

text \<open>
  C4: in a registry whose entry \<open>input\<close> captures and is the one with the short \<open>i\<close>,
  the pass over \<open>["app", "-i", t]\<close> returns \<open>["app"]\<close>, marks \<open>input\<close> hit and stores
  the whole token \<open>t\<close> as its captured value, whatever \<open>t\<close> looks like; and the pass
  over \<open>["app", "-i=img.png"]\<close> has the outcome of the pass over
  \<open>["app", "-i", "img.png"]\<close>.
\<close>

lemma find_match_reset:
  assumes "map_of r k = Some a" and "short a = s"
    and "\<forall>(k', b)\<in>set r. short b = s \<longrightarrow> k' = k"
  shows "find_match False s (reset_reg r) = Some (k, a\<lparr>captured := [], proc := False\<rparr>)"
  using assms by (induction r) (auto simp: reset_reg_def split: if_splits)

lemma opts_modify_twice:
  "opts_modify k f (opts_modify k g r) = opts_modify k (\<lambda>a. f (g a)) r"
  by (induction r) (auto simp: opts_modify_def)

lemma map_of_opts_modify:
  "map_of (opts_modify k f r) k = map_option f (map_of r k)"
  by (induction r) (auto simp: opts_modify_def)

lemma map_of_reset_reg:
  "map_of (reset_reg r) k = map_option (\<lambda>a. a\<lparr>captured := [], proc := False\<rparr>) (map_of r k)"
  by (induction r) (auto simp: reset_reg_def)

theorem capture_following_token:
  assumes "map_of (opts ap) ''input'' = Some a" and "short a = ''i''" and "capture a"
    and "\<forall>(k, b)\<in>set (opts ap). short b = ''i'' \<longrightarrow> k = ''input''"
  shows "process ap [''app'', ''-i'', t]
           = (Inr [''app''],
              ap\<lparr>opts := opts_modify ''input'' (\<lambda>b. b\<lparr>proc := True, captured := t\<rparr>)
                             (reset_reg (opts ap))\<rparr>)
         \<and> proced (snd (process ap [''app'', ''-i'', t])) ''input'' = Inr (Some True)
         \<and> value_of (snd (process ap [''app'', ''-i'', t])) ''input'' = Inr (Some t)
         \<and> process ap [''app'', ''-i=img.png''] = process ap [''app'', ''-i'', ''img.png'']"
proof -
  let ?r = "reset_reg (opts ap)"
  let ?a = "a\<lparr>captured := [], proc := False\<rparr>"
  have fm: "find_match False ''i'' ?r = Some (''input'', ?a)"
    using assms by (intro find_match_reset) auto
  have k1: "optKey_of ''app'' = ([], False)" "optKey_of ''-i'' = (''i'', False)"
    "optKey_of ''-i=img.png'' = (''i=img.png'', False)"
    by (simp_all add: optKey_of_def js_defs)
  have k2: "key_of ''i'' = ''i''" "key_of ''i=img.png'' = ''i''"
    by (simp_all add: key_of_def js_defs)
  have sep: "process ap [''app'', ''-i'', t]
           = (Inr [''app''],
              ap\<lparr>opts := opts_modify ''input'' (\<lambda>b. b\<lparr>proc := True, captured := t\<rparr>) ?r\<rparr>)" for t
    using fm assms(3)
    by (simp add: process_def resetOpt_eq process_arg_def on_match_def k1 k2 Let_def
        js_search_def opts_modify_twice)
  have inl: "process ap [''app'', ''-i=img.png'']
           = (Inr [''app''],
              ap\<lparr>opts := opts_modify ''input'' (\<lambda>b. b\<lparr>proc := True, captured := ''img.png''\<rparr>) ?r\<rparr>)"
    using fm assms(3)
    by (simp add: process_def resetOpt_eq process_arg_def on_match_def k1 k2 Let_def
        js_defs opts_modify_twice)
  have q: "proced (snd (process ap [''app'', ''-i'', t])) ''input'' = Inr (Some True)"
    "value_of (snd (process ap [''app'', ''-i'', t])) ''input'' = Inr (Some t)"
    using assms(1)
    by (simp_all add: sep proced_def value_of_def opts_lookup_def map_of_opts_modify map_of_reset_reg)
  show ?thesis using sep inl q by simp
qed

theorem capture_following_token_witness:
  "process demo [''app'', ''-i'', ''--help'']
     = (Inr [''app''],
        demo\<lparr>opts := [(''help'', help_opt),
                       (''input'', input_opt\<lparr>proc := True, captured := ''--help''\<rparr>)]\<rparr>)
   \<and> proced (snd (process demo [''app'', ''-i'', ''--help''])) ''input'' = Inr (Some True)
   \<and> value_of (snd (process demo [''app'', ''-i'', ''--help''])) ''input'' = Inr (Some ''--help'')
   \<and> process demo [''app'', ''-i=img.png''] = process demo [''app'', ''-i'', ''img.png'']"
proof -
  have a: "map_of (opts demo) ''input'' = Some input_opt"
    and b: "short input_opt = ''i''" and c: "capture input_opt"
    and d: "\<forall>(k, b)\<in>set (opts demo). short b = ''i'' \<longrightarrow> k = ''input''"
    by (simp_all add: example_defs)
  have e: "opts_modify ''input'' (\<lambda>b. b\<lparr>proc := True, captured := ''--help''\<rparr>) (reset_reg (opts demo))
             = [(''help'', help_opt), (''input'', input_opt\<lparr>proc := True, captured := ''--help''\<rparr>)]"
    by (simp add: opts_modify_def reset_reg_def example_defs)
  from capture_following_token [OF a b c d, of "''--help''", unfolded e] show ?thesis .
qed

end
